theory Spec2Isabelle
  imports Main "HOL-Library.Multiset"
begin

section \<open>The render queue of \<open>src/network.ts\<close>\<close>

text \<open>
  The module keeps two globals for browser rendering: the array \<open>puppeteerQueue\<close> of
  pending closures and the counter \<open>activePuppeteerRequests\<close>.  A queued closure is
  determined by the arguments of \<open>queuePuppeteerRequest(url, useProxy)\<close>.

  JavaScript runs every stretch of code between two \<open>await\<close>s without interruption, so
  an \<open>async\<close> function is modelled by its uninterrupted segments.
  \<open>processPuppeteerQueue\<close> has two: from its entry to the \<open>await\<close> in line 141, and from
  the settling of the awaited closure to its end.  The closure built in lines 118 to 125
  catches every error of \<open>fetchWithPuppeteer\<close>, so the awaited promise always settles
  by fulfilment and line 142 is always reached once it settles.

  Two fields record what the code does but does not store: \<open>awaiting\<close> holds the closures
  whose invocation of \<open>processPuppeteerQueue\<close> is suspended in line 141, and \<open>launched\<close>
  and \<open>finished\<close> are the traces of the calls in line 141 and of their settlings.
\<close>

record QueuedRenderTask =
  url :: string
  useProxy :: bool

record render_state =
  puppeteerQueue :: "QueuedRenderTask list"
  activePuppeteerRequests :: int
  awaiting :: "QueuedRenderTask list"
  launched :: "QueuedRenderTask list"
  finished :: "QueuedRenderTask list"

definition MAX_PUPPETEER_REQUESTS :: int where
  "MAX_PUPPETEER_REQUESTS = 2"

definition render_init :: render_state where
  "render_init = \<lparr>puppeteerQueue = [], activePuppeteerRequests = 0,
                   awaiting = [], launched = [], finished = []\<rparr>"

text \<open>Lines 133 to 141: the guard, \<open>shift()\<close>, the increment and the call of the closure.\<close>

definition processPuppeteerQueue :: "render_state \<Rightarrow> render_state" where
  "processPuppeteerQueue s =
     (if activePuppeteerRequests s \<ge> MAX_PUPPETEER_REQUESTS \<or> puppeteerQueue s = [] then s
      else (case puppeteerQueue s of
              [] \<Rightarrow> s
            | puppeteerRequest # rest \<Rightarrow>
                s\<lparr>puppeteerQueue := rest,
                  activePuppeteerRequests := activePuppeteerRequests s + 1,
                  awaiting := awaiting s @ [puppeteerRequest],
                  launched := launched s @ [puppeteerRequest]\<rparr>))"

text \<open>Lines 142 and 143: the continuation once the awaited closure has settled.\<close>

definition processPuppeteerQueue_resume :: "QueuedRenderTask \<Rightarrow> render_state \<Rightarrow> render_state" where
  "processPuppeteerQueue_resume t s =
     processPuppeteerQueue
       (s\<lparr>activePuppeteerRequests := activePuppeteerRequests s - 1,
          awaiting := remove1 t (awaiting s),
          finished := finished s @ [t]\<rparr>)"

text \<open>Lines 116 to 128: \<open>push\<close> onto the array, then the processor.\<close>

definition queuePuppeteerRequest :: "QueuedRenderTask \<Rightarrow> render_state \<Rightarrow> render_state" where
  "queuePuppeteerRequest t s =
     processPuppeteerQueue (s\<lparr>puppeteerQueue := puppeteerQueue s @ [t]\<rparr>)"

text \<open>
  What can happen to the queue: a caller submits a task, or the closure of a suspended
  invocation settles.  A settling of a task that is not running cannot happen and leaves
  the state as it is.
\<close>

datatype render_event = Submit QueuedRenderTask | Settle QueuedRenderTask

fun render_step :: "render_state \<Rightarrow> render_event \<Rightarrow> render_state" where
  "render_step s (Submit t) = queuePuppeteerRequest t s"
| "render_step s (Settle t) =
     (if t \<in> set (awaiting s) then processPuppeteerQueue_resume t s else s)"

definition render_run :: "render_event list \<Rightarrow> render_state" where
  "render_run evs = foldl render_step render_init evs"

fun submitted :: "render_event list \<Rightarrow> QueuedRenderTask list" where
  "submitted [] = []"
| "submitted (Submit t # evs) = t # submitted evs"
| "submitted (Settle t # evs) = submitted evs"

text \<open>Settling the oldest running task, \<open>n\<close> times over.\<close>

fun drain :: "nat \<Rightarrow> render_state \<Rightarrow> render_state" where
  "drain 0 s = s"
| "drain (Suc n) s =
     (case awaiting s of [] \<Rightarrow> s | t # _ \<Rightarrow> drain n (processPuppeteerQueue_resume t s))"

subsection \<open>Invariant of the render queue\<close>

text \<open>
  The counter equals the number of suspended invocations, stays at or below the ceiling,
  is at the ceiling whenever a task is waiting, and every launched task is either still
  running or has finished.
\<close>

definition render_inv :: "render_state \<Rightarrow> bool" where
  "render_inv s \<longleftrightarrow>
     activePuppeteerRequests s = int (length (awaiting s)) \<and>
     activePuppeteerRequests s \<le> MAX_PUPPETEER_REQUESTS \<and>
     (puppeteerQueue s \<noteq> [] \<longrightarrow> activePuppeteerRequests s = MAX_PUPPETEER_REQUESTS) \<and>
     mset (launched s) = mset (awaiting s) + mset (finished s)"

section \<open>The proxy pool and the HTTP client of \<open>src/network.ts\<close>\<close>

subsection \<open>The string operations of line 56\<close>

text \<open>
  Strings are lists of 8-bit characters.  \<open>split_on c\<close> is \<open>String.prototype.split\<close>
  with a separator of one character: it always returns at least one field, and the empty
  string has the single field \<open>''''\<close>.  \<open>join\<close> is \<open>Array.prototype.join\<close>,
  \<open>take 2\<close> is \<open>slice(0, 2)\<close>, and \<open>filter(Boolean)\<close> keeps the strings that are not
  empty.  \<open>trim\<close> removes white space and line terminators at both ends; in the range
  of 8-bit characters these are the codes 9 to 13, 32 and 160.
\<close>

fun split_on :: "char \<Rightarrow> string \<Rightarrow> string list" where
  "split_on c [] = [[]]"
| "split_on c (x # xs) =
     (if x = c then [] # split_on c xs
      else (case split_on c xs of
              [] \<Rightarrow> [[x]]
            | f # fs \<Rightarrow> (x # f) # fs))"

fun join :: "string \<Rightarrow> string list \<Rightarrow> string" where
  "join sep [] = []"
| "join sep [x] = x"
| "join sep (x # y # ys) = x @ sep @ join sep (y # ys)"

definition js_whitespace :: "char \<Rightarrow> bool" where
  "js_whitespace c \<longleftrightarrow>
     c \<in> set [CHR 0x09, CHR 0x0A, CHR 0x0B, CHR 0x0C, CHR 0x0D, CHR 0x20, CHR 0xA0]"

definition trim :: "string \<Rightarrow> string" where
  "trim s = rev (dropWhile js_whitespace (rev (dropWhile js_whitespace s)))"

text \<open>The callback of \<open>map\<close> in line 56, and the whole right-hand side of that line.\<close>

definition normalize_proxy :: "string \<Rightarrow> string" where
  "normalize_proxy proxy = join '':'' (take 2 (split_on CHR '':'' (trim proxy)))"

definition parse_proxy_data :: "string list \<Rightarrow> string list" where
  "parse_proxy_data proxyData = filter (\<lambda>s. s \<noteq> []) (map normalize_proxy proxyData)"

subsection \<open>State of the module\<close>

text \<open>
  \<open>currentProxyIndex\<close> is a JavaScript number.  Line 81 computes
  \<open>(currentProxyIndex + 1) % proxyList.length\<close>; the remainder by zero is \<open>NaN\<close>, and
  \<open>NaN + 1\<close> and \<open>NaN % n\<close> are \<open>NaN\<close> again.  Every other value the variable takes
  is a natural number.
\<close>

datatype js_index = Idx nat | NaN

definition next_index :: "js_index \<Rightarrow> nat \<Rightarrow> js_index" where
  "next_index i len =
     (case i of
        NaN \<Rightarrow> NaN
      | Idx k \<Rightarrow> if len = 0 then NaN else Idx ((k + 1) mod len))"

definition js_succ :: "js_index \<Rightarrow> js_index" where
  "js_succ i = (case i of NaN \<Rightarrow> NaN | Idx k \<Rightarrow> Idx (k + 1))"

text \<open>
  \<open>proxyList[currentProxyIndex]\<close> is \<open>undefined\<close> (here \<open>None\<close>) out of range and at
  \<open>NaN\<close>; a template literal prints \<open>undefined\<close> as the word.
\<close>

definition proxy_at :: "string list \<Rightarrow> js_index \<Rightarrow> string option" where
  "proxy_at xs i =
     (case i of
        NaN \<Rightarrow> None
      | Idx k \<Rightarrow> if k < length xs then Some (xs ! k) else None)"

definition template :: "string option \<Rightarrow> string" where
  "template v = (case v of None \<Rightarrow> ''undefined'' | Some s \<Rightarrow> s)"

text \<open>
  An Axios instance is either one created without agents (lines 15, 74 and 83, and the
  global \<open>axios\<close> of line 53), which has no interceptor, or one created in lines 98 to
  104 with the two proxy agents for one entry of the list and the response interceptor of
  \<open>setupAxiosInterceptors\<close>.
\<close>

datatype axios_instance = Direct | Proxied string

text \<open>
  An Axios error carries its \<open>code\<close> (\<open>None\<close> when the property is undefined) and the
  \<open>config\<close> of the request that failed, of which the model keeps the URL.  A settled
  promise is fulfilled with a value or rejected with an error.
\<close>

datatype axios_error = AxiosError (code: "string option") (config: string)

datatype 'a promise = Fulfilled 'a | Rejected axios_error

text \<open>
  The network is outside the program: \<open>net k inst u\<close> is what comes back for the
  \<open>k\<close>-th request put on the wire (counting from 0), sent through instance \<open>inst\<close>
  to URL \<open>u\<close>: a response body, or a failure with its error code.
\<close>

datatype reply = Data string | Fail "string option"

type_synonym network = "nat \<Rightarrow> axios_instance \<Rightarrow> string \<Rightarrow> reply"

text \<open>The lines the module writes to the console (error messages are left out).\<close>

datatype log_line =
    AxiosErrorLog "string option"
  | RotatingLog
  | FetchedLog nat
  | FetchFailedLog
  | RotatedLog js_index nat
  | SetupLog "string option"
  | SuccessLog "string option" string
  | FetchingLog string bool
  | FetchErrorLog

text \<open>
  The globals of lines 6 to 15, with the requests sent so far (\<open>wire\<close>, oldest first)
  and the console output (\<open>console\<close>, oldest first).
\<close>

record pool_state =
  proxyList :: "string list"
  currentProxyIndex :: js_index
  lastProxyFetchTime :: int
  isFetchingProxies :: bool
  axiosInstance :: axios_instance
  wire :: "(axios_instance \<times> string) list"
  console :: "log_line list"

definition proxyFetchInterval :: int where
  "proxyFetchInterval = 60 * 60 * 1000"

definition pool_init :: pool_state where
  "pool_init = \<lparr>proxyList = [], currentProxyIndex = Idx 0, lastProxyFetchTime = 0,
                 isFetchingProxies = False, axiosInstance = Direct, wire = [], console = []\<rparr>"

definition log :: "log_line \<Rightarrow> pool_state \<Rightarrow> pool_state" where
  "log l st = st\<lparr>console := console st @ [l]\<rparr>"

definition IPIFY :: string where
  "IPIFY = ''https://api.ipify.org''"

subsection \<open>Failure classification, rotation and replay\<close>

text \<open>The condition of line 23 on \<open>error.code\<close>.\<close>

definition transient :: "string option \<Rightarrow> bool" where
  "transient c \<longleftrightarrow>
     c \<in> set [Some ''ECONNABORTED'', Some ''ECONNRESET'', Some ''ETIMEDOUT'', Some ''ERR_BAD_REQUEST'']
     \<or> c = None"

text \<open>
  Four pieces of code call each other: a request through an instance
  (\<open>axios_request\<close>), the rejection handler that \<open>setupAxiosInterceptors\<close> installs
  (lines 21 to 29), \<open>rotateProxy\<close> (lines 80 to 87) and \<open>setupAxiosInstanceWithProxy\<close>
  (lines 90 to 113).  A request through a \<open>Proxied\<close> instance that fails runs the
  handler; the handler may rotate; rotation validates the new instance with a request
  through it, which has the handler installed as well.  Nothing in the code bounds this
  chain, so the functions take fuel, spent at each failing request through a proxied
  instance, and return \<open>None\<close> when it runs out.

  \<open>setupAxiosInstanceWithProxy\<close> assigns the global \<open>axiosInstance\<close> before the
  validating request and returns the global as it is after that request, which a
  rotation nested in the request may have assigned again.
\<close>

fun axios_request ::
    "nat \<Rightarrow> network \<Rightarrow> axios_instance \<Rightarrow> string \<Rightarrow> pool_state \<Rightarrow> (string promise \<times> pool_state) option"
  and interceptor_rejected ::
    "nat \<Rightarrow> network \<Rightarrow> axios_error \<Rightarrow> pool_state \<Rightarrow> (string promise \<times> pool_state) option"
  and rotateProxy ::
    "nat \<Rightarrow> network \<Rightarrow> pool_state \<Rightarrow> (axios_instance promise \<times> pool_state) option"
  and setupAxiosInstanceWithProxy ::
    "nat \<Rightarrow> network \<Rightarrow> pool_state \<Rightarrow> (axios_instance promise \<times> pool_state) option"
where
  "axios_request n net inst u st =
     (let st1 = st\<lparr>wire := wire st @ [(inst, u)]\<rparr> in
      case net (length (wire st)) inst u of
        Data d \<Rightarrow> Some (Fulfilled d, st1)
      | Fail c \<Rightarrow>
          (case inst of
             Direct \<Rightarrow> Some (Rejected (AxiosError c u), st1)
           | Proxied p \<Rightarrow>
               (case n of
                  0 \<Rightarrow> None
                | Suc m \<Rightarrow> interceptor_rejected m net (AxiosError c u) st1)))"
| "interceptor_rejected n net error st =
     (let st1 = log (AxiosErrorLog (code error)) st in
      if transient (code error) then
        (case rotateProxy n net (log RotatingLog st1) of
           None \<Rightarrow> None
         | Some (Rejected e, st2) \<Rightarrow> Some (Rejected e, st2)
         | Some (Fulfilled newAxiosInstance, st2) \<Rightarrow>
             axios_request n net newAxiosInstance (config error) st2)
      else Some (Rejected error, st1))"
| "rotateProxy n net st =
     (let st1 = st\<lparr>currentProxyIndex :=
                     next_index (currentProxyIndex st) (length (proxyList st))\<rparr> in
      if currentProxyIndex st1 = Idx 0 then Some (Fulfilled Direct, st1)
      else setupAxiosInstanceWithProxy n net
             (log (RotatedLog (js_succ (currentProxyIndex st1)) (length (proxyList st1))) st1))"
| "setupAxiosInstanceWithProxy n net st =
     (let entry = proxy_at (proxyList st) (currentProxyIndex st);
          st1 = (log (SetupLog entry) st)\<lparr>axiosInstance := Proxied (template entry)\<rparr> in
      case axios_request n net (axiosInstance st1) IPIFY st1 of
        None \<Rightarrow> None
      | Some (Rejected e, st2) \<Rightarrow> Some (Rejected e, st2)
      | Some (Fulfilled d, st2) \<Rightarrow>
          Some (Fulfilled (axiosInstance st2),
                log (SuccessLog (proxy_at (proxyList st2) (currentProxyIndex st2)) d) st2))"

subsection \<open>Refreshing the proxy list\<close>

text \<open>
  \<open>process.env.PROXY_URL || '...'\<close> of line 49: the default is taken when the variable is
  unset or empty.
\<close>

definition PROXY_URL :: "string option \<Rightarrow> string" where
  "PROXY_URL env_var =
     (case env_var of
        None \<Rightarrow> ''https://github.com/zloi-user/hideip.me/raw/main/https.txt''
      | Some v \<Rightarrow> if v = [] then ''https://github.com/zloi-user/hideip.me/raw/main/https.txt'' else v)"

text \<open>
  \<open>fetchProxyList\<close> has two uninterrupted segments.  The first (lines 37 to 53) either
  finds the lock taken and starts polling, or takes the lock and sends the request.  The
  second (lines 54 to 63) runs when the request has settled; \<open>now\<close> is the value of
  \<open>Date.now()\<close> in line 58.  The \<open>catch\<close> block logs and does not rethrow, and the
  \<open>finally\<close> block releases the lock on both paths.
\<close>

datatype fetch_entry = Polling | Requesting

definition fetchProxyList_enter :: "string option \<Rightarrow> pool_state \<Rightarrow> fetch_entry \<times> pool_state" where
  "fetchProxyList_enter env_var st =
     (if isFetchingProxies st then (Polling, st)
      else (Requesting,
            st\<lparr>isFetchingProxies := True, wire := wire st @ [(Direct, PROXY_URL env_var)]\<rparr>))"

definition fetchProxyList_settle :: "reply \<Rightarrow> int \<Rightarrow> pool_state \<Rightarrow> pool_state" where
  "fetchProxyList_settle r now st =
     (case r of
        Data d \<Rightarrow>
          (let proxyData = split_on CHR 0x0A d in
           (log (FetchedLog (length proxyData)) st)
             \<lparr>proxyList := parse_proxy_data proxyData,
              currentProxyIndex := Idx 0,
              lastProxyFetchTime := now,
              isFetchingProxies := False\<rparr>)
      | Fail c \<Rightarrow> (log FetchFailedLog st)\<lparr>isFetchingProxies := False\<rparr>)"


text \<open>
  One caller on its own: a call that finds the lock taken never returns, since nothing
  else runs that could release it.  \<open>clock k\<close> is the value of \<open>Date.now()\<close> when
  \<open>k\<close> requests have been sent.
\<close>

definition fetchProxyList ::
    "network \<Rightarrow> (nat \<Rightarrow> int) \<Rightarrow> string option \<Rightarrow> pool_state \<Rightarrow> pool_state option" where
  "fetchProxyList net clock env_var st =
     (case fetchProxyList_enter env_var st of
        (Polling, st1) \<Rightarrow> None
      | (Requesting, st1) \<Rightarrow>
          Some (fetchProxyList_settle (net (length (wire st)) Direct (PROXY_URL env_var))
                  (clock (length (wire st1))) st1))"

definition refresh_due :: "int \<Rightarrow> pool_state \<Rightarrow> bool" where
  "refresh_due now st \<longleftrightarrow>
     now - lastProxyFetchTime st > proxyFetchInterval \<or> length (proxyList st) = 0"

definition refreshProxyListIfNeeded ::
    "network \<Rightarrow> (nat \<Rightarrow> int) \<Rightarrow> string option \<Rightarrow> pool_state \<Rightarrow> pool_state option" where
  "refreshProxyListIfNeeded net clock env_var st =
     (if refresh_due (clock (length (wire st))) st then fetchProxyList net clock env_var st
      else Some st)"

definition getAxiosInstance ::
    "nat \<Rightarrow> network \<Rightarrow> (nat \<Rightarrow> int) \<Rightarrow> string option \<Rightarrow> bool \<Rightarrow> pool_state
      \<Rightarrow> (axios_instance promise \<times> pool_state) option" where
  "getAxiosInstance n net clock env_var use_proxy st =
     (if \<not> use_proxy then Some (Fulfilled Direct, st)
      else (case refreshProxyListIfNeeded net clock env_var st of
              None \<Rightarrow> None
            | Some st1 \<Rightarrow> setupAxiosInstanceWithProxy n net st1))"

text \<open>
  \<open>fetchNetwork\<close> for every mode other than \<open>'puppeteer'\<close> (lines 186 and 190 to 201);
  the \<open>catch\<close> block logs and rethrows.  The mode \<open>'puppeteer'\<close> goes to the render
  queue above.
\<close>

definition fetchNetwork ::
    "nat \<Rightarrow> network \<Rightarrow> (nat \<Rightarrow> int) \<Rightarrow> string option \<Rightarrow> string \<Rightarrow> bool \<Rightarrow> pool_state
      \<Rightarrow> (string promise \<times> pool_state) option" where
  "fetchNetwork n net clock env_var u use_proxy st =
     (case getAxiosInstance n net clock env_var use_proxy (log (FetchingLog u use_proxy) st) of
        None \<Rightarrow> None
      | Some (Rejected e, st1) \<Rightarrow> Some (Rejected e, log FetchErrorLog st1)
      | Some (Fulfilled inst, st1) \<Rightarrow>
          (case axios_request n net inst u st1 of
             None \<Rightarrow> None
           | Some (Rejected e, st2) \<Rightarrow> Some (Rejected e, log FetchErrorLog st2)
           | Some (Fulfilled d, st2) \<Rightarrow> Some (Fulfilled d, st2)))"

text \<open>The number of calls of \<open>rotateProxy\<close> so far: each is announced by line 24.\<close>

definition rotations :: "pool_state \<Rightarrow> nat" where
  "rotations st = length (filter (\<lambda>l. l = RotatingLog) (console st))"



subsection \<open>The proxy list as the specification words it\<close>






subsection \<open>What a chain of requests and rotations leaves alone\<close>

text \<open>
  The index points into the list; the requests and rotations of the client never touch
  the list, the time stamp or the lock, only add to the wire and the console, and keep
  an index that points into the list pointing into it.
\<close>

definition index_valid :: "pool_state \<Rightarrow> bool" where
  "index_valid st \<longleftrightarrow>
     (case currentProxyIndex st of NaN \<Rightarrow> False | Idx i \<Rightarrow> i < length (proxyList st))"

definition evolves :: "pool_state \<Rightarrow> pool_state \<Rightarrow> bool" where
  "evolves st st' \<longleftrightarrow>
     proxyList st' = proxyList st \<and>
     lastProxyFetchTime st' = lastProxyFetchTime st \<and>
     isFetchingProxies st' = isFetchingProxies st \<and>
     (\<exists>ws. wire st' = wire st @ ws) \<and>
     (\<exists>cs. console st' = console st @ cs) \<and>
     (index_valid st \<longrightarrow> index_valid st')"

text \<open>The settled promise of a request that the interceptor does not touch.\<close>

definition outcome :: "reply \<Rightarrow> string \<Rightarrow> string promise" where
  "outcome r u = (case r of Data d \<Rightarrow> Fulfilled d | Fail c \<Rightarrow> Rejected (AxiosError c u))"

text \<open>The claim that the index lies between 0 and the length of the list.\<close>

definition index_in_range :: "pool_state \<Rightarrow> bool" where
  "index_in_range st \<longleftrightarrow>
     (case currentProxyIndex st of NaN \<Rightarrow> False | Idx i \<Rightarrow> i \<le> length (proxyList st))"

subsection \<open>Example inputs\<close>

text \<open>The pool of the specification's scenario, freshly fetched, and a URL to fetch.\<close>

definition pool3 :: pool_state where
  "pool3 = pool_init\<lparr>proxyList := [''1.1.1.1:8080'', ''2.2.2.2:8080'', ''3.3.3.3:8080''],
                      lastProxyFetchTime := 1000\<rparr>"

definition example_url :: string where
  "example_url = ''https://example.test''"




definition net_source_down :: network where
  "net_source_down k inst u =
     (if k = 0 then Fail (Some ''ECONNREFUSED'')
      else if k = 1 then Fail (Some ''ECONNABORTED'')
      else Fail (Some ''ENOTFOUND''))"

text \<open>A network on which every request through a proxy times out and every direct
  request is answered.\<close>

definition net_dead_proxies :: network where
  "net_dead_proxies k inst u =
     (case inst of Direct \<Rightarrow> Data ''ok'' | Proxied p \<Rightarrow> Fail (Some ''ETIMEDOUT''))"

subsection \<open>Several callers of \<open>fetchProxyList\<close> at once\<close>













section \<open>Properties of the render queue\<close>

lemma render_inv_init: "render_inv render_init"
  by (simp add: render_inv_def render_init_def MAX_PUPPETEER_REQUESTS_def)

lemma render_inv_submit: "render_inv s \<Longrightarrow> render_inv (queuePuppeteerRequest t s)"
  by (auto simp: render_inv_def queuePuppeteerRequest_def processPuppeteerQueue_def
      MAX_PUPPETEER_REQUESTS_def split: list.splits)

lemma render_inv_resume:
  assumes inv: "render_inv s" and t: "t \<in> set (awaiting s)"
  shows "render_inv (processPuppeteerQueue_resume t s)"
proof -
  from t have "0 < length (awaiting s)" by (rule length_pos_if_in_set)
  then have len: "int (length (awaiting s) - Suc 0) = int (length (awaiting s)) - 1" by arith
  from t have ms: "add_mset t (mset (awaiting s) - {#t#}) = mset (awaiting s)" by simp
  have ms': "mset (launched s) = (mset (awaiting s) - {#t#}) + add_mset t (mset (finished s))"
    using inv ms by (simp add: render_inv_def)
  show ?thesis
    using inv t len ms'
    by (auto simp: render_inv_def processPuppeteerQueue_resume_def processPuppeteerQueue_def
        MAX_PUPPETEER_REQUESTS_def length_remove1 split: list.splits)
qed

lemma render_inv_step: "render_inv s \<Longrightarrow> render_inv (render_step s e)"
  by (cases e) (simp_all add: render_inv_submit render_inv_resume)

lemma render_inv_foldl: "render_inv s \<Longrightarrow> render_inv (foldl render_step s evs)"
  by (induction evs arbitrary: s) (simp_all add: render_inv_step)

lemma render_inv_run: "render_inv (render_run evs)"
  by (simp add: render_run_def render_inv_foldl render_inv_init)

subsection \<open>Order of admission\<close>

lemma submitted_append: "submitted (evs @ evs') = submitted evs @ submitted evs'"
  by (induction evs rule: submitted.induct) simp_all

lemma fifo_resume:
  "launched (processPuppeteerQueue_resume t s) @ puppeteerQueue (processPuppeteerQueue_resume t s) =
   launched s @ puppeteerQueue s"
  by (auto simp: processPuppeteerQueue_resume_def processPuppeteerQueue_def split: list.splits)

lemma fifo_step:
  "launched (render_step s e) @ puppeteerQueue (render_step s e) =
   launched s @ puppeteerQueue s @ submitted [e]"
  by (cases e) (auto simp: queuePuppeteerRequest_def fifo_resume processPuppeteerQueue_def
      split: list.splits)

lemma fifo_run: "launched (render_run evs) @ puppeteerQueue (render_run evs) = submitted evs"
proof (induction evs rule: rev_induct)
  case Nil
  then show ?case by (simp add: render_run_def render_init_def)
next
  case (snoc e evs)
  have "render_run (evs @ [e]) = render_step (render_run evs) e"
    by (simp add: render_run_def)
  then show ?case using snoc fifo_step [of "render_run evs" e]
    by (simp add: submitted_append)
qed

subsection \<open>Ceiling and progress\<close>

lemma launched_count:
  assumes inv: "render_inv s" and fifo: "launched s @ puppeteerQueue s = L"
  shows "length (launched s) = min (length L) (2 + length (finished s))"
proof -
  have a: "length (launched s) = length (awaiting s) + length (finished s)"
    using inv by (metis render_inv_def size_mset size_union)
  have b: "length L = length (launched s) + length (puppeteerQueue s)"
    using fifo by (metis length_append)
  show ?thesis
  proof (cases "puppeteerQueue s = []")
    case True
    then show ?thesis using a b inv by (simp add: render_inv_def MAX_PUPPETEER_REQUESTS_def)
  next
    case False
    then have "length (puppeteerQueue s) > 0" by simp
    then show ?thesis using a b inv False by (simp add: render_inv_def MAX_PUPPETEER_REQUESTS_def)
  qed
qed

lemma drain_inv: "render_inv s \<Longrightarrow> render_inv (drain n s)"
  by (induction n arbitrary: s) (auto simp: render_inv_resume split: list.splits)

lemma drain_fifo: "launched (drain n s) @ puppeteerQueue (drain n s) = launched s @ puppeteerQueue s"
  by (induction n arbitrary: s) (auto simp: fifo_resume split: list.splits)

lemma resume_measure:
  assumes inv: "render_inv s" and aw: "awaiting s = t # ts"
  shows "length (awaiting (processPuppeteerQueue_resume t s)) +
         length (puppeteerQueue (processPuppeteerQueue_resume t s)) + 1 =
         length (awaiting s) + length (puppeteerQueue s)"
  using inv aw
  by (auto simp: render_inv_def processPuppeteerQueue_resume_def processPuppeteerQueue_def
      MAX_PUPPETEER_REQUESTS_def split: list.splits)

lemma drain_empties:
  "render_inv s \<Longrightarrow> length (awaiting s) + length (puppeteerQueue s) \<le> n \<Longrightarrow>
   awaiting (drain n s) = [] \<and> puppeteerQueue (drain n s) = []"
proof (induction n arbitrary: s)
  case 0
  then show ?case by simp
next
  case (Suc n)
  show ?case
  proof (cases "awaiting s")
    case Nil
    then show ?thesis using Suc.prems(1)
      by (auto simp: render_inv_def MAX_PUPPETEER_REQUESTS_def)
  next
    case (Cons t ts)
    have "render_inv (processPuppeteerQueue_resume t s)"
      using Suc.prems(1) Cons by (simp add: render_inv_resume)
    moreover have "length (awaiting (processPuppeteerQueue_resume t s)) +
         length (puppeteerQueue (processPuppeteerQueue_resume t s)) \<le> n"
      using resume_measure [OF Suc.prems(1) Cons] Suc.prems(2) by linarith
    ultimately show ?thesis using Suc.IH Cons by simp
  qed
qed

lemma drain_all_finished:
  assumes inv: "render_inv s" and n: "length (awaiting s) + length (puppeteerQueue s) \<le> n"
  shows "mset (finished (drain n s)) = mset (launched s @ puppeteerQueue s)"
proof -
  have e: "awaiting (drain n s) = [] \<and> puppeteerQueue (drain n s) = []"
    using drain_empties [OF inv n] .
  have "mset (launched (drain n s)) = mset (awaiting (drain n s)) + mset (finished (drain n s))"
    using drain_inv [OF inv, of n] by (simp add: render_inv_def)
  then have "mset (finished (drain n s)) = mset (launched (drain n s) @ puppeteerQueue (drain n s))"
    using e by simp
  then show ?thesis by (simp only: drain_fifo)
qed

text \<open>
  Claim C4.  After every sequence of submissions and settlings the counter of active
  render tasks lies between 0 and the ceiling 2 and equals the number of tasks really
  running.  The number of tasks started so far is the smaller of the number submitted and
  2 plus the number finished, so every settling admits the next waiting task; and once the
  running tasks have settled, as many times as tasks were submitted, no task is running
  or waiting and the finished tasks are exactly the submitted ones.
\<close>

theorem render_concurrency_ceiling:
  "0 \<le> activePuppeteerRequests (render_run evs) \<and>
   activePuppeteerRequests (render_run evs) \<le> 2 \<and>
   activePuppeteerRequests (render_run evs) = int (length (awaiting (render_run evs))) \<and>
   length (launched (render_run evs)) =
     min (length (submitted evs)) (2 + length (finished (render_run evs))) \<and>
   awaiting (drain (length (submitted evs)) (render_run evs)) = [] \<and>
   puppeteerQueue (drain (length (submitted evs)) (render_run evs)) = [] \<and>
   mset (finished (drain (length (submitted evs)) (render_run evs))) = mset (submitted evs)"
proof -
  let ?s = "render_run evs"
  have inv: "render_inv ?s" by (rule render_inv_run)
  have fifo: "launched ?s @ puppeteerQueue ?s = submitted evs" by (rule fifo_run)
  have a: "activePuppeteerRequests ?s = int (length (awaiting ?s))"
    and b: "activePuppeteerRequests ?s \<le> 2"
    using inv by (simp_all add: render_inv_def MAX_PUPPETEER_REQUESTS_def)
  have c: "length (launched ?s) = min (length (submitted evs)) (2 + length (finished ?s))"
    using launched_count [OF inv fifo] .
  have "length (submitted evs) = length (launched ?s) + length (puppeteerQueue ?s)"
    using fifo by (metis length_append)
  moreover have "length (launched ?s) = length (awaiting ?s) + length (finished ?s)"
    using inv by (metis render_inv_def size_mset size_union)
  ultimately have n: "length (awaiting ?s) + length (puppeteerQueue ?s) \<le> length (submitted evs)"
    by simp
  have d: "awaiting (drain (length (submitted evs)) ?s) = [] \<and>
           puppeteerQueue (drain (length (submitted evs)) ?s) = []"
    using drain_empties [OF inv n] .
  have e: "mset (finished (drain (length (submitted evs)) ?s)) = mset (submitted evs)"
    using drain_all_finished [OF inv n] fifo by simp
  show ?thesis using a b c d e by simp
qed




section \<open>Properties of the refresh\<close>

subsection \<open>Single flight\<close>















subsection \<open>What a refresh does to the pool\<close>














text \<open>
  Claim C10.  When the request for the proxy list fails, \<open>fetchProxyList\<close> still
  returns, with the list, the index, the time stamp and the instance as they were and the
  lock released.  If a refresh was due before, it is due at every later time, and the next
  \<open>refreshProxyListIfNeeded\<close> sends a new request to the proxy source.
\<close>

theorem refresh_failure_keeps_pool:
  assumes "\<not> isFetchingProxies st"
      and "net (length (wire st)) Direct (PROXY_URL env_var) = Fail c"
  shows "\<exists>st'. fetchProxyList net clock env_var st = Some st' \<and>
           proxyList st' = proxyList st \<and>
           currentProxyIndex st' = currentProxyIndex st \<and>
           lastProxyFetchTime st' = lastProxyFetchTime st \<and>
           axiosInstance st' = axiosInstance st \<and>
           \<not> isFetchingProxies st' \<and>
           (\<forall>now now'. refresh_due now st \<and> now \<le> now' \<longrightarrow> refresh_due now' st') \<and>
           (\<forall>net' clock'. refresh_due (clock' (length (wire st'))) st' \<longrightarrow>
              (\<exists>st''. refreshProxyListIfNeeded net' clock' env_var st' = Some st'' \<and>
                      wire st'' = wire st' @ [(Direct, PROXY_URL env_var)]))"
proof -
  define st' where "st' = fetchProxyList_settle (Fail c) (clock (length (wire st) + 1))
      (st\<lparr>isFetchingProxies := True, wire := wire st @ [(Direct, PROXY_URL env_var)]\<rparr>)"
  have r: "fetchProxyList net clock env_var st = Some st'"
    using assms by (simp add: fetchProxyList_def fetchProxyList_enter_def st'_def)
  have same: "proxyList st' = proxyList st" "currentProxyIndex st' = currentProxyIndex st"
      "lastProxyFetchTime st' = lastProxyFetchTime st" "axiosInstance st' = axiosInstance st"
      "\<not> isFetchingProxies st'"
    by (simp_all add: st'_def fetchProxyList_settle_def log_def)
  have due: "refresh_due now' st'" if "refresh_due now st" "now \<le> now'" for now now'
    using that same by (auto simp: refresh_due_def)
  have retry: "\<exists>st''. refreshProxyListIfNeeded net' clock' env_var st' = Some st'' \<and>
                      wire st'' = wire st' @ [(Direct, PROXY_URL env_var)]"
    if "refresh_due (clock' (length (wire st'))) st'" for net' clock'
    using that same(5)
    by (simp add: refreshProxyListIfNeeded_def fetchProxyList_def fetchProxyList_enter_def
        fetchProxyList_settle_def log_def Let_def split: reply.splits)
  show ?thesis using r same due retry by blast
qed

theorem refresh_failure_keeps_pool_witness:
  "\<not> isFetchingProxies pool_init \<and>
   (\<exists>st'. fetchProxyList (\<lambda>k i u. Fail (Some ''ENOTFOUND'')) (\<lambda>k. 1000) None pool_init = Some st' \<and>
      proxyList st' = [] \<and> lastProxyFetchTime st' = 0 \<and> refresh_due 1000 pool_init \<and> refresh_due 2000 st')"
proof -
  have h1: "\<not> isFetchingProxies pool_init" by (simp add: pool_init_def)
  have h2: "(\<lambda>k i u. Fail (Some ''ENOTFOUND'')) (length (wire pool_init)) Direct (PROXY_URL None) = Fail (Some ''ENOTFOUND'')"
    by simp
  have h3: "refresh_due 1000 pool_init" by (simp add: refresh_due_def pool_init_def)
  obtain st' where s: "fetchProxyList (\<lambda>k i u. Fail (Some ''ENOTFOUND'')) (\<lambda>k. 1000) None pool_init = Some st'"
      "proxyList st' = proxyList pool_init" "lastProxyFetchTime st' = lastProxyFetchTime pool_init"
      "\<forall>now now'. refresh_due now pool_init \<and> now \<le> now' \<longrightarrow> refresh_due now' st'"
    using refresh_failure_keeps_pool [OF h1 h2, of "\<lambda>k. 1000"] by blast
  have "refresh_due 1000 pool_init \<and> (1000::int) \<le> 2000" using h3 by simp
  then have "refresh_due 2000 st'" using s(4) by blast
  then show ?thesis using s(1,2,3) h1 h3 by (simp add: pool_init_def)
qed

section \<open>Properties of rotation and replay\<close>

subsection \<open>The pool during a chain of requests\<close>

text \<open>
  The four equations are unfolded by hand, one call at a time.
\<close>

declare axios_request.simps [simp del] interceptor_rejected.simps [simp del]
  rotateProxy.simps [simp del] setupAxiosInstanceWithProxy.simps [simp del]

lemma evolves_refl: "evolves st st"
  by (simp add: evolves_def)

lemma evolves_trans: "evolves a b \<Longrightarrow> evolves b c \<Longrightarrow> evolves a c"
  by (auto simp: evolves_def)

lemma evolves_log: "evolves st (log l st)"
  by (simp add: evolves_def log_def index_valid_def split: js_index.splits)

lemma evolves_wire: "evolves st (st\<lparr>wire := wire st @ ws\<rparr>)"
  by (simp add: evolves_def index_valid_def split: js_index.splits)

lemma evolves_instance: "evolves st (st\<lparr>axiosInstance := i\<rparr>)"
  by (simp add: evolves_def index_valid_def split: js_index.splits)

lemma evolves_next_index:
  "evolves st (st\<lparr>currentProxyIndex := next_index (currentProxyIndex st) (length (proxyList st))\<rparr>)"
  by (auto simp: evolves_def index_valid_def next_index_def split: js_index.splits)

lemma chain_evolves:
  shows "axios_request n net inst u st = Some (r, st') \<Longrightarrow>
           evolves (st\<lparr>wire := wire st @ [(inst, u)]\<rparr>) st'"
    and "interceptor_rejected n net err st = Some (r, st') \<Longrightarrow> evolves st st'"
    and "rotateProxy n net st = Some (ri, st') \<Longrightarrow> evolves st st'"
    and "setupAxiosInstanceWithProxy n net st = Some (ri, st') \<Longrightarrow> evolves st st'"
proof (induction n net inst u st and n net err st and n net st and n net st
    arbitrary: r st' and r st' and ri st' and ri st'
    rule: axios_request_interceptor_rejected_rotateProxy_setupAxiosInstanceWithProxy.induct)
  case (1 n net inst u st)
  let ?st1 = "st\<lparr>wire := wire st @ [(inst, u)]\<rparr>"
  show ?case
  proof (cases "net (length (wire st)) inst u")
    case (Data d)
    then have "st' = ?st1" using "1.prems" by (simp add: axios_request.simps)
    then show ?thesis by (simp add: evolves_refl)
  next
    case (Fail c)
    show ?thesis
    proof (cases inst)
      case Direct
      then have "st' = ?st1" using "1.prems" Fail by (simp add: axios_request.simps)
      then show ?thesis by (simp add: evolves_refl)
    next
      case (Proxied p)
      show ?thesis
      proof (cases n)
        case 0
        then show ?thesis using "1.prems" Fail Proxied by (simp add: axios_request.simps)
      next
        case (Suc m)
        then have "interceptor_rejected m net (AxiosError c u) ?st1 = Some (r, st')"
          using "1.prems" Fail Proxied by (simp add: axios_request.simps)
        then show ?thesis using "1.IH" [OF refl Fail Proxied Suc] by simp
      qed
    qed
  qed
next
  case (2 n net err st)
  let ?st1 = "log (AxiosErrorLog (code err)) st"
  have e1: "evolves st ?st1" by (rule evolves_log)
  show ?case
  proof (cases "transient (code err)")
    case False
    then have "st' = ?st1" using "2.prems" by (simp add: interceptor_rejected.simps)
    then show ?thesis using e1 by simp
  next
    case True
    have e2: "evolves st (log RotatingLog ?st1)"
      using e1 evolves_log evolves_trans by blast
    show ?thesis
    proof (cases "rotateProxy n net (log RotatingLog ?st1)")
      case None
      then show ?thesis using "2.prems" True by (simp add: interceptor_rejected.simps)
    next
      case (Some x)
      obtain rp st2 where x: "x = (rp, st2)" by (cases x)
      have e3: "evolves (log RotatingLog ?st1) st2"
        using "2.IH"(1) [OF refl True] Some x by simp
      show ?thesis
      proof (cases rp)
        case (Rejected e)
        then have "st' = st2" using "2.prems" True Some x by (simp add: interceptor_rejected.simps)
        then show ?thesis using e2 e3 evolves_trans by blast
      next
        case (Fulfilled i)
        then have req: "axios_request n net i (config err) st2 = Some (r, st')"
          using "2.prems" True Some x by (simp add: interceptor_rejected.simps)
        have "evolves (st2\<lparr>wire := wire st2 @ [(i, config err)]\<rparr>) st'"
          using "2.IH"(2) [OF refl True Some _ Fulfilled req] x by simp
        then have "evolves st2 st'" using evolves_wire evolves_trans by blast
        then show ?thesis using e2 e3 evolves_trans by blast
      qed
    qed
  qed
next
  case (3 n net st)
  let ?st1 = "st\<lparr>currentProxyIndex := next_index (currentProxyIndex st) (length (proxyList st))\<rparr>"
  have e1: "evolves st ?st1" by (rule evolves_next_index)
  show ?case
  proof (cases "currentProxyIndex ?st1 = Idx 0")
    case True
    then have "st' = ?st1" using "3.prems" by (simp add: rotateProxy.simps)
    then show ?thesis using e1 by simp
  next
    case False
    let ?st2 = "log (RotatedLog (js_succ (currentProxyIndex ?st1)) (length (proxyList ?st1))) ?st1"
    have "setupAxiosInstanceWithProxy n net ?st2 = Some (ri, st')"
      using "3.prems" False by (simp add: rotateProxy.simps)
    then have "evolves ?st2 st'" using "3.IH" [OF refl False] by simp
    moreover have "evolves st ?st2" using e1 evolves_log evolves_trans by blast
    ultimately show ?thesis using evolves_trans by blast
  qed
next
  case (4 n net st)
  let ?entry = "proxy_at (proxyList st) (currentProxyIndex st)"
  let ?st1 = "(log (SetupLog ?entry) st)\<lparr>axiosInstance := Proxied (template ?entry)\<rparr>"
  have e1: "evolves st ?st1" using evolves_log evolves_instance evolves_trans by blast
  show ?case
  proof (cases "axios_request n net (axiosInstance ?st1) IPIFY ?st1")
    case None
    then show ?thesis using "4.prems" by (simp add: setupAxiosInstanceWithProxy.simps Let_def)
  next
    case (Some x)
    obtain rp st2 where x: "x = (rp, st2)" by (cases x)
    have "evolves (?st1\<lparr>wire := wire ?st1 @ [(axiosInstance ?st1, IPIFY)]\<rparr>) st2"
      using "4.IH" [OF refl refl] Some x by simp
    then have e2: "evolves ?st1 st2" using evolves_wire evolves_trans by blast
    show ?thesis
    proof (cases rp)
      case (Rejected e)
      then have "st' = st2" using "4.prems" Some x by (simp add: setupAxiosInstanceWithProxy.simps Let_def)
      then show ?thesis using e1 e2 evolves_trans by blast
    next
      case (Fulfilled d)
      then have "st' = log (SuccessLog (proxy_at (proxyList st2) (currentProxyIndex st2)) d) st2"
        using "4.prems" Some x by (simp add: setupAxiosInstanceWithProxy.simps Let_def)
      then have "evolves st2 st'" using evolves_log by simp
      then show ?thesis using e1 e2 evolves_trans by blast
    qed
  qed
qed

subsection \<open>Failure classification\<close>



lemma rotations_wire [simp]: "rotations (st\<lparr>wire := w\<rparr>) = rotations st"
  by (simp add: rotations_def)



lemma request_transient:
  assumes "net (length (wire st)) (Proxied p) u = Fail c" and "transient c"
  shows "axios_request (Suc n) net (Proxied p) u st =
           (case rotateProxy n net
                   (log RotatingLog (log (AxiosErrorLog c) (st\<lparr>wire := wire st @ [(Proxied p, u)]\<rparr>))) of
              None \<Rightarrow> None
            | Some (Rejected e, st2) \<Rightarrow> Some (Rejected e, st2)
            | Some (Fulfilled newAxiosInstance, st2) \<Rightarrow> axios_request n net newAxiosInstance u st2)"
  using assms
  by (simp add: axios_request.simps interceptor_rejected.simps
      split: option.splits prod.splits promise.splits)

lemma request_direct:
  "axios_request n net Direct u st =
     Some (outcome (net (length (wire st)) Direct u) u, st\<lparr>wire := wire st @ [(Direct, u)]\<rparr>)"
  by (simp add: axios_request.simps outcome_def split: reply.splits)





subsection \<open>One rotation\<close>

lemma rotate_lands_direct:
  assumes "next_index (currentProxyIndex st) (length (proxyList st)) = Idx 0"
  shows "rotateProxy n net st = Some (Fulfilled Direct, st\<lparr>currentProxyIndex := Idx 0\<rparr>)"
  using assms by (simp add: rotateProxy.simps)





subsection \<open>Validation of a rotated proxy\<close>

text \<open>The equations that evaluate the model on a concrete input.\<close>

lemmas run_simps = axios_request.simps interceptor_rejected.simps rotateProxy.simps
  setupAxiosInstanceWithProxy.simps Let_def log_def next_index_def proxy_at_def template_def
  js_succ_def transient_def pool3_def pool_init_def example_url_def IPIFY_def




subsection \<open>Replay after a rotation\<close>






subsection \<open>The cycle of rotation\<close>







subsection \<open>Range of the index\<close>

text \<open>An index that points into the list still does after a rotation.\<close>

lemma rotate_keeps_index_valid:
  "index_valid st \<Longrightarrow> rotateProxy n net st = Some (r, st') \<Longrightarrow> index_valid st' \<and> index_in_range st'"
  using chain_evolves(3) [of n net st r st']
  by (auto simp: evolves_def index_valid_def index_in_range_def split: js_index.splits)

text \<open>
  Claim C8 fails on the empty pool.  With the proxy source unreachable the list stays
  empty; the control request through the proxy \<open>undefined\<close> times out, the handler
  rotates, and the remainder by the length 0 leaves the index at \<open>NaN\<close>, which is
  not a number between 0 and the length of the list.
\<close>

theorem empty_pool_rotation_leaves_range:
  "\<exists>st'. fetchNetwork 5 net_source_down (\<lambda>k. 0) None example_url True pool_init =
           Some (Rejected (AxiosError (Some ''ENOTFOUND'') IPIFY), st') \<and>
         proxyList st' = [] \<and>
         currentProxyIndex st' = NaN \<and>
         \<not> index_in_range st'"
  by (simp add: fetchNetwork_def getAxiosInstance_def refreshProxyListIfNeeded_def refresh_due_def
      proxyFetchInterval_def fetchProxyList_def fetchProxyList_enter_def fetchProxyList_settle_def
      PROXY_URL_def run_simps net_source_down_def index_in_range_def)

subsection \<open>A chain that never ends\<close>

text \<open>
  Nothing bounds the chain of rotations within one call.  With two proxies that always
  time out and a direct connection that works, a request through a proxied instance with
  the index at 0 never returns, whatever the fuel: the control request of the second proxy
  fails, the nested rotation wraps to index 0 and replays the control request directly,
  which succeeds, so the second proxy's instance is handed back as validated; the replay
  through it fails, and with the index at 0 again the same happens over.  This is why the
  statements above about a second rotation are about the calls that return.
\<close>

lemma dead_proxy_fails:
  "net_dead_proxies k (Proxied p) u = Fail (Some ''ETIMEDOUT'')"
  by (simp add: net_dead_proxies_def)

lemma timeout_transient: "transient (Some ''ETIMEDOUT'')"
  by (simp add: transient_def)

lemma dead_proxies_never_return:
  "length (proxyList st) = 2 \<Longrightarrow> currentProxyIndex st = Idx 0 \<Longrightarrow>
   axios_request n net_dead_proxies (Proxied p) u st = None"
proof (induction n arbitrary: st p u rule: less_induct)
  case (less n)
  let ?net = net_dead_proxies
  let ?c = "Some ''ETIMEDOUT''"
  show ?case
  proof (cases n)
    case 0
    then show ?thesis by (simp add: axios_request.simps dead_proxy_fails)
  next
    case (Suc m)
    let ?st3 = "log RotatingLog (log (AxiosErrorLog ?c) (st\<lparr>wire := wire st @ [(Proxied p, u)]\<rparr>))"
    have step: "axios_request (Suc m) ?net (Proxied p) u st =
        (case rotateProxy m ?net ?st3 of
           None \<Rightarrow> None
         | Some (Rejected e, st2) \<Rightarrow> Some (Rejected e, st2)
         | Some (Fulfilled newAxiosInstance, st2) \<Rightarrow> axios_request m ?net newAxiosInstance u st2)"
      using request_transient [where net="?net" and st=st and p=p and u=u and c="?c" and n=m]
        dead_proxy_fails timeout_transient by simp
    let ?q = "template (proxy_at (proxyList st) (Idx 1))"
    let ?st5 = "(log (SetupLog (proxy_at (proxyList st) (Idx 1)))
                 (log (RotatedLog (js_succ (Idx 1)) 2) (?st3\<lparr>currentProxyIndex := Idx 1\<rparr>)))\<lparr>axiosInstance := Proxied ?q\<rparr>"
    have rot: "rotateProxy m ?net ?st3 =
        (case axios_request m ?net (Proxied ?q) IPIFY ?st5 of
           None \<Rightarrow> None
         | Some (Rejected e, st2) \<Rightarrow> Some (Rejected e, st2)
         | Some (Fulfilled d, st2) \<Rightarrow>
             Some (Fulfilled (axiosInstance st2),
                   log (SuccessLog (proxy_at (proxyList st2) (currentProxyIndex st2)) d) st2))"
      using less.prems
      by (simp add: rotateProxy.simps setupAxiosInstanceWithProxy.simps Let_def log_def
          next_index_def js_succ_def)
    show ?thesis
    proof (cases m)
      case 0
      then have "axios_request m ?net (Proxied ?q) IPIFY ?st5 = None"
        by (simp add: axios_request.simps dead_proxy_fails)
      then show ?thesis using step rot Suc by simp
    next
      case (Suc k)
      let ?st7 = "log RotatingLog (log (AxiosErrorLog ?c) (?st5\<lparr>wire := wire ?st5 @ [(Proxied ?q, IPIFY)]\<rparr>))"
      have z: "next_index (currentProxyIndex ?st7) (length (proxyList ?st7)) = Idx 0"
        using less.prems by (simp add: log_def next_index_def)
      have v: "axios_request (Suc k) ?net (Proxied ?q) IPIFY ?st5 =
          (case rotateProxy k ?net ?st7 of
             None \<Rightarrow> None
           | Some (Rejected e, st2) \<Rightarrow> Some (Rejected e, st2)
           | Some (Fulfilled newAxiosInstance, st2) \<Rightarrow> axios_request k ?net newAxiosInstance IPIFY st2)"
        using request_transient [where net="?net" and st="?st5" and p="?q" and u=IPIFY and c="?c" and n=k]
          dead_proxy_fails timeout_transient by simp
      let ?st8 = "?st7\<lparr>currentProxyIndex := Idx 0\<rparr>"
      have "rotateProxy k ?net ?st7 = Some (Fulfilled Direct, ?st8)"
        using rotate_lands_direct [OF z] .
      then have v': "axios_request (Suc k) ?net (Proxied ?q) IPIFY ?st5 =
                       Some (Fulfilled ''ok'', ?st8\<lparr>wire := wire ?st8 @ [(Direct, IPIFY)]\<rparr>)"
        using v by (simp add: request_direct outcome_def net_dead_proxies_def)
      let ?st9 = "?st8\<lparr>wire := wire ?st8 @ [(Direct, IPIFY)]\<rparr>"
      let ?st10 = "log (SuccessLog (proxy_at (proxyList ?st9) (currentProxyIndex ?st9)) ''ok'') ?st9"
      have rot': "rotateProxy m ?net ?st3 = Some (Fulfilled (axiosInstance ?st9), ?st10)"
        using rot v' Suc by simp
      have inst: "axiosInstance ?st9 = Proxied ?q" by (simp add: log_def)
      have l10: "length (proxyList ?st10) = 2" using less.prems(1) by (simp add: log_def)
      have i10: "currentProxyIndex ?st10 = Idx 0" by (simp add: log_def)
      have "m < n" using \<open>n = Suc m\<close> by simp
      then have "axios_request m ?net (Proxied ?q) u ?st10 = None"
        using less.IH [OF _ l10 i10] by blast
      then show ?thesis using step rot' inst \<open>n = Suc m\<close> by simp
    qed
  qed
qed

end
